theory Spec2Isabelle
  imports Main "HOL-Library.Sublist"
begin

section \<open>The CAI MCP patch script (fix\_cai\_mcp\_bug.py)\<close>

text \<open>
  The script locates the installed file \<^verbatim>\<open>cai/repl/commands/mcp.py\<close>, copies it to a
  backup, replaces every \<^verbatim>\<open>server.params.get(\<close> by \<^verbatim>\<open>getattr(server.params, \<close>,
  writes the result back, reads it again and recounts. The embedding below follows the
  three functions of the source: \<open>find_cai_mcp_file\<close>, \<open>fix_cai_mcp_bug\<close> and \<open>main\<close>.

  Conventions of the model:
  \<^item> a file's content is the text that Python's \<^verbatim>\<open>read()\<close> returns for it (a \<open>string\<close>);
  \<^item> the file system is a map from path strings to nodes; distinct path strings name
    distinct nodes (no symbolic links, no normalisation of paths);
  \<^item> paths follow \<^verbatim>\<open>posixpath\<close>;
  \<^item> an exception is the outcome \<open>Raised\<close>; the file system and the printed lines reached
    at that point are kept beside it. The only exceptions of the model are those that the
    modelled state decides (opening a directory, opening a missing file for reading).
\<close>

subsection \<open>Python string methods\<close>

text \<open>
  \<^verbatim>\<open>str.count(sub)\<close>: the number of non-overlapping occurrences, scanning from the left;
  after a match the scan resumes behind it. For the empty \<open>sub\<close> Python returns
  \<^verbatim>\<open>len(s) + 1\<close>.
\<close>

fun py_count :: "string \<Rightarrow> string \<Rightarrow> nat" where
  "py_count [] sub = (if sub = [] then 1 else 0)"
| "py_count (c # cs) sub =
     (if sub = [] then length cs + 2
      else if prefix sub (c # cs) then 1 + py_count (drop (length sub) (c # cs)) sub
      else py_count cs sub)"

text \<open>
  \<^verbatim>\<open>str.replace(old, new)\<close>: every non-overlapping occurrence of \<open>old\<close>, found from the
  left, becomes \<open>new\<close>. For the empty \<open>old\<close> Python puts \<open>new\<close> before every character
  and at the end.
\<close>

fun py_replace :: "string \<Rightarrow> string \<Rightarrow> string \<Rightarrow> string" where
  "py_replace [] old new = (if old = [] then new else [])"
| "py_replace (c # cs) old new =
     (if old = [] then new @ c # py_replace cs old new
      else if prefix old (c # cs) then new @ py_replace (drop (length old) (c # cs)) old new
      else c # py_replace cs old new)"

text \<open>The three literals of the source: lines 76/87/97, line 87, and line 98 (no blank at the end).\<close>

definition bad_literal :: string where
  "bad_literal = ''server.params.get(''"

definition corrected_literal :: string where
  "corrected_literal = ''getattr(server.params, ''"

definition corrected_probe :: string where
  "corrected_probe = ''getattr(server.params,''"

text \<open>Decimal rendering of a non-negative integer, as an f-string does it.\<close>

fun str_nat :: "nat \<Rightarrow> string" where
  "str_nat n =
     (if n < 10 then [''0123456789'' ! n]
      else str_nat (n div 10) @ [''0123456789'' ! (n mod 10)])"

declare str_nat.simps [simp del]

subsection \<open>Paths (posixpath)\<close>

text \<open>
  One round of the loop of \<^verbatim>\<open>os.path.join\<close>: an absolute component replaces what was
  joined so far; otherwise it is appended, behind a slash unless the path is empty or
  already ends in one.
\<close>

definition join_step :: "string \<Rightarrow> string \<Rightarrow> string" where
  "join_step path b =
     (if prefix ''/'' b then b
      else if path = [] \<or> suffix ''/'' path then path @ b
      else path @ ''/'' @ b)"

definition path_join :: "string \<Rightarrow> string list \<Rightarrow> string" where
  "path_join a p = foldl join_step a p"

text \<open>\<^verbatim>\<open>os.path.basename\<close>: what follows the last slash.\<close>

definition basename :: "string \<Rightarrow> string" where
  "basename p = rev (takeWhile (\<lambda>c. c \<noteq> CHR ''/'') (rev p))"

text \<open>
  \<^verbatim>\<open>os.path.dirname\<close>: the part up to the last slash, with its trailing slashes removed
  unless it consists of slashes only.
\<close>

definition dirname :: "string \<Rightarrow> string" where
  "dirname p =
     (let head = rev (dropWhile (\<lambda>c. c \<noteq> CHR ''/'') (rev p))
      in if head \<noteq> [] \<and> head \<noteq> replicate (length head) (CHR ''/'')
         then rev (dropWhile (\<lambda>c. c = CHR ''/'') (rev head))
         else head)"

subsection \<open>File system, exceptions, printed lines\<close>

datatype node = File string | Dir

type_synonym filesystem = "string \<rightharpoonup> node"

datatype error = IsADirectoryError string | FileNotFoundError string

datatype 'a outcome = Raised error | Returned 'a

text \<open>\<^verbatim>\<open>os.path.exists\<close> holds for files and for directories alike.\<close>

definition path_exists :: "filesystem \<Rightarrow> string \<Rightarrow> bool" where
  "path_exists fs p = (fs p \<noteq> None)"

text \<open>\<^verbatim>\<open>with open(p, 'r') as f: f.read()\<close>\<close>

definition read_file :: "filesystem \<Rightarrow> string \<Rightarrow> error + string" where
  "read_file fs p =
     (case fs p of
        None \<Rightarrow> Inl (FileNotFoundError p)
      | Some Dir \<Rightarrow> Inl (IsADirectoryError p)
      | Some (File text) \<Rightarrow> Inr text)"

text \<open>\<^verbatim>\<open>with open(p, 'w') as f: f.write(text)\<close>: creates the file or truncates it first.\<close>

definition write_file :: "filesystem \<Rightarrow> string \<Rightarrow> string \<Rightarrow> error + filesystem" where
  "write_file fs p text =
     (case fs p of
        Some Dir \<Rightarrow> Inl (IsADirectoryError p)
      | _ \<Rightarrow> Inr (fs(p \<mapsto> File text)))"

text \<open>
  One constructor for each \<^verbatim>\<open>print\<close> of the source, with the values it interpolates.
  A string that starts with a newline prints \<open>Blank\<close> first.
\<close>

datatype message =
    Title                        \<comment> \<open>line 49\<close>
  | Rule nat                     \<comment> \<open>lines 50, 122, 124, 132: that many equals signs\<close>
  | CaiNotFound                  \<comment> \<open>line 53\<close>
  | EnsureInstalled              \<comment> \<open>line 54\<close>
  | PipInstall                   \<comment> \<open>line 55\<close>
  | FoundInstallation string     \<comment> \<open>line 58\<close>
  | TargetFile string            \<comment> \<open>line 59\<close>
  | CreatingBackup               \<comment> \<open>line 64\<close>
  | BackupCreated string         \<comment> \<open>line 68\<close>
  | ReadingFile                  \<comment> \<open>line 71\<close>
  | FoundCalls nat               \<comment> \<open>line 77\<close>
  | NoFixesNeeded                \<comment> \<open>line 80\<close>
  | ApplyingFixes                \<comment> \<open>line 84\<close>
  | FixApplied                   \<comment> \<open>line 100\<close>
  | BeforeLine nat               \<comment> \<open>line 101\<close>
  | AfterLine nat                \<comment> \<open>line 102\<close>
  | AddedLine nat                \<comment> \<open>line 103\<close>
  | AllFixed                     \<comment> \<open>line 106\<close>
  | NextStepsHeader              \<comment> \<open>line 107\<close>
  | NextStep nat                 \<comment> \<open>lines 108 to 111\<close>
  | WarningRemain nat            \<comment> \<open>line 114\<close>
  | Blank
  | SummaryTitle                 \<comment> \<open>line 123\<close>
  | SummaryText nat              \<comment> \<open>lines 125 to 127\<close>
  | BugDetailsHeader             \<comment> \<open>line 128\<close>
  | BugDetail nat                \<comment> \<open>lines 129 to 131\<close>
  | FixFailed                    \<comment> \<open>line 134\<close>

subsection \<open>find\_cai\_mcp\_file\<close>

text \<open>What the locator reads from the modules \<^verbatim>\<open>site\<close> and \<^verbatim>\<open>sys\<close>.\<close>

record environment =
  site_getsitepackages :: "string list"
  site_getusersitepackages :: string
  sys_has_real_prefix :: bool
  sys_base_prefix :: "string option"   \<comment> \<open>\<open>None\<close>: \<^verbatim>\<open>sys\<close> has no such attribute\<close>
  sys_prefix :: string
  version_major :: nat
  version_minor :: nat

text \<open>Line 31.\<close>

definition in_virtualenv :: "environment \<Rightarrow> bool" where
  "in_virtualenv env =
     (sys_has_real_prefix env \<or>
      (case sys_base_prefix env of None \<Rightarrow> False | Some b \<Rightarrow> b \<noteq> sys_prefix env))"

text \<open>Line 32.\<close>

definition venv_site_packages :: "environment \<Rightarrow> string" where
  "venv_site_packages env =
     path_join (sys_prefix env)
       [''lib'', ''python'' @ str_nat (version_major env) @ ''.'' @ str_nat (version_minor env),
        ''site-packages'']"

text \<open>Lines 22 to 33.\<close>

definition search_paths :: "environment \<Rightarrow> string list" where
  "search_paths env =
     site_getsitepackages env @ [site_getusersitepackages env] @
     (if in_virtualenv env then [venv_site_packages env] else [])"

text \<open>Line 37.\<close>

definition potential_file :: "string \<Rightarrow> string" where
  "potential_file path = path_join path [''cai'', ''repl'', ''commands'', ''mcp.py'']"

text \<open>The loop of lines 36 to 41.\<close>

fun first_existing :: "filesystem \<Rightarrow> string list \<Rightarrow> string option" where
  "first_existing fs [] = None"
| "first_existing fs (path # paths) =
     (if path_exists fs (potential_file path) then Some (potential_file path)
      else first_existing fs paths)"

definition find_cai_mcp_file :: "environment \<Rightarrow> filesystem \<Rightarrow> string option" where
  "find_cai_mcp_file env fs = first_existing fs (search_paths env)"

subsection \<open>fix\_cai\_mcp\_bug\<close>

text \<open>
  Lines 63 to 68. The original is opened for reading before the backup is opened for
  writing, so a failure to open the original leaves no backup behind.
\<close>

definition create_backup ::
  "filesystem \<Rightarrow> string \<Rightarrow> string \<Rightarrow> error option \<times> filesystem \<times> message list" where
  "create_backup fs file_path backup_path =
     (if \<not> path_exists fs backup_path then
        (case read_file fs file_path of
           Inl e \<Rightarrow> (Some e, fs, [CreatingBackup])
         | Inr original \<Rightarrow>
             (case write_file fs backup_path original of
                Inl e \<Rightarrow> (Some e, fs, [CreatingBackup])
              | Inr fs' \<Rightarrow> (None, fs', [CreatingBackup, BackupCreated backup_path])))
      else (None, fs, []))"

text \<open>
  Lines 97 to 115: what the function does with the text it read back. The result is the
  returned flag and the lines printed.
\<close>

definition verify_fix :: "nat \<Rightarrow> string \<Rightarrow> bool \<times> message list" where
  "verify_fix before_count fixed_content =
     (let after_count = py_count fixed_content bad_literal;
          getattr_count = py_count fixed_content corrected_probe;
          report = [FixApplied, BeforeLine before_count, AfterLine after_count,
                    AddedLine getattr_count]
      in if after_count = 0
         then (True, report @ [AllFixed, NextStepsHeader, NextStep 1, NextStep 2,
                               NextStep 3, NextStep 4])
         else (False, report @ [WarningRemain after_count]))"

text \<open>
  Lines 43 to 115. \<^verbatim>\<open>if not file_path\<close> holds for \<^verbatim>\<open>None\<close> and for the empty string.
\<close>

definition fix_cai_mcp_bug ::
  "environment \<Rightarrow> filesystem \<Rightarrow> bool outcome \<times> filesystem \<times> message list" where
  "fix_cai_mcp_bug env fs =
     (let found = find_cai_mcp_file env fs;
          out0 = [Title, Rule 40];
          not_found = (Returned False, fs, out0 @ [CaiNotFound, EnsureInstalled, PipInstall])
      in (case found of
            None \<Rightarrow> not_found
          | Some file_path \<Rightarrow>
             (if file_path = [] then not_found
              else
               (let out1 = out0 @ [FoundInstallation (dirname file_path),
                                   TargetFile (basename file_path)];
                    backup_path = file_path @ ''.backup''
                in (case create_backup fs file_path backup_path of
                      (Some e, fs1, out2) \<Rightarrow> (Raised e, fs1, out1 @ out2)
                    | (None, fs1, out2) \<Rightarrow>
                       (case read_file fs1 file_path of
                          Inl e \<Rightarrow> (Raised e, fs1, out1 @ out2 @ [ReadingFile])
                        | Inr content \<Rightarrow>
                           (let before_count = py_count content bad_literal;
                                out3 = out1 @ out2 @ [ReadingFile, FoundCalls before_count]
                            in (if before_count = 0
                                then (Returned True, fs1, out3 @ [NoFixesNeeded])
                                else
                                 (case write_file fs1 file_path
                                         (py_replace content bad_literal corrected_literal) of
                                    Inl e \<Rightarrow> (Raised e, fs1, out3 @ [ApplyingFixes])
                                  | Inr fs2 \<Rightarrow>
                                     (case read_file fs2 file_path of
                                        Inl e \<Rightarrow> (Raised e, fs2, out3 @ [ApplyingFixes])
                                      | Inr fixed_content \<Rightarrow>
                                         (case verify_fix before_count fixed_content of
                                            (success, out4) \<Rightarrow>
                                              (Returned success, fs2,
                                               out3 @ [ApplyingFixes] @ out4))))))))))))"

subsection \<open>main and the script\<close>

text \<open>Lines 121 to 134: what \<open>main\<close> prints for the flag it received.\<close>

definition main_report :: "bool \<Rightarrow> message list" where
  "main_report success =
     (if success
      then [Blank, Rule 50, SummaryTitle, Rule 50, SummaryText 1, SummaryText 2, SummaryText 3,
            Blank, BugDetailsHeader, BugDetail 1, BugDetail 2, BugDetail 3, Rule 50]
      else [Blank, FixFailed])"

text \<open>Lines 117 to 134. \<open>main\<close> returns \<^verbatim>\<open>None\<close>; an exception of the call passes through.\<close>

definition main :: "environment \<Rightarrow> filesystem \<Rightarrow> unit outcome \<times> filesystem \<times> message list" where
  "main env fs =
     (case fix_cai_mcp_bug env fs of
        (Raised e, fs', out) \<Rightarrow> (Raised e, fs', out)
      | (Returned success, fs', out) \<Rightarrow> (Returned (), fs', out @ main_report success))"

text \<open>
  The interpreter's exit status for a script that ends by returning from its last
  statement (0) or by an exception nobody caught (1). The source never calls
  \<^verbatim>\<open>sys.exit\<close>.
\<close>

fun exit_status :: "'a outcome \<Rightarrow> nat" where
  "exit_status (Returned _) = 0"
| "exit_status (Raised _) = 1"

text \<open>Lines 136 and 137.\<close>

definition script :: "environment \<Rightarrow> filesystem \<Rightarrow> nat \<times> filesystem \<times> message list" where
  "script env fs = (case main env fs of (r, fs', out) \<Rightarrow> (exit_status r, fs', out))"

subsection \<open>Notions used in the proofs\<close>

text \<open>
  \<open>apart xs p\<close>: no occurrence of \<open>p\<close> can begin inside a copy of \<open>xs\<close> and no non-empty
  end of \<open>xs\<close> begins \<open>p\<close>. For the literals of the script this is decided by evaluation.
\<close>

definition apart :: "string \<Rightarrow> string \<Rightarrow> bool" where
  "apart xs p = (\<forall>q \<in> set (suffixes xs). q \<noteq> [] \<longrightarrow> \<not> prefix q p \<and> \<not> prefix p q)"

text \<open>The number of positions of a text at which \<open>p\<close> begins, overlapping or not.\<close>

fun occurrences :: "string \<Rightarrow> string \<Rightarrow> nat" where
  "occurrences p [] = (if p = [] then 1 else 0)"
| "occurrences p (c # cs) = (if prefix p (c # cs) then 1 else 0) + occurrences p cs"

subsection \<open>A concrete installation\<close>

text \<open>
  A virtual environment at \<^verbatim>\<open>/v\<close> on Python 3.11 whose copy of the file calls
  \<^verbatim>\<open>server.params.get(\<close> three times; the system and user directories hold no copy.
\<close>

definition demo_env :: environment where
  "demo_env =
     \<lparr>site_getsitepackages = [''/s''], site_getusersitepackages = ''/u'',
      sys_has_real_prefix = False, sys_base_prefix = Some ''/usr'', sys_prefix = ''/v'',
      version_major = 3, version_minor = 11\<rparr>"

definition demo_path :: string where
  "demo_path = ''/v/lib/python3.11/site-packages/cai/repl/commands/mcp.py''"

definition demo_content :: string where
  "demo_content = ''server.params.get(a)server.params.get(b)server.params.get(c)''"

definition demo_fixed :: string where
  "demo_fixed = ''getattr(server.params, a)getattr(server.params, b)getattr(server.params, c)''"

definition demo_fs :: filesystem where
  "demo_fs = map_of [(demo_path, File demo_content)]"

text \<open>The same installation after an earlier run: patched file, backup in place.\<close>

definition demo_fs_patched :: filesystem where
  "demo_fs_patched =
     map_of [(demo_path, File demo_fixed), (demo_path @ ''.backup'', File demo_content)]"

text \<open>A copy that never called \<^verbatim>\<open>server.params.get(\<close>, with no backup beside it.\<close>

definition demo_clean :: string where
  "demo_clean = ''import sys''"

definition demo_fs_clean :: filesystem where
  "demo_fs_clean = map_of [(demo_path, File demo_clean)]"

text \<open>A text that still holds one call, as a stale read after the write would return it.\<close>

definition demo_stale :: string where
  "demo_stale = ''x = server.params.get(1)''"

text \<open>A copy in the user directory as well as in the virtual environment.\<close>

definition demo_fs_two :: filesystem where
  "demo_fs_two =
     map_of [(demo_path, File demo_content), (''/u/cai/repl/commands/mcp.py'', File [])]"

section \<open>Properties of the replacement\<close>

subsection \<open>The literals keep apart\<close>

lemma apart_bad_corrected: "apart bad_literal corrected_literal"
  by (simp add: apart_def bad_literal_def corrected_literal_def)

lemma apart_corrected_bad: "apart corrected_literal bad_literal"
  by (simp add: apart_def bad_literal_def corrected_literal_def)

lemma bad_literal_nonempty: "bad_literal \<noteq> []"
  by (simp add: bad_literal_def)

lemma apart_Cons: "apart (x # xs) p \<Longrightarrow> apart xs p"
  by (simp add: apart_def)

lemma apart_Cons_prefix: "apart (x # xs) p \<Longrightarrow> \<not> prefix p (x # xs @ r)"
proof
  assume a: "apart (x # xs) p" and p: "prefix p (x # xs @ r)"
  have "prefix p ((x # xs) @ r)" using p by simp
  then have "prefix p (x # xs) \<or> prefix (x # xs) p"
    unfolding prefix_append by (auto simp: prefix_def)
  moreover have "\<not> prefix (x # xs) p \<and> \<not> prefix p (x # xs)"
    using a by (simp add: apart_def)
  ultimately show False by blast
qed

subsection \<open>No occurrence of the old text survives\<close>

lemma count_zero_if:
  "sub \<noteq> [] \<Longrightarrow> (\<And>u. suffix u t \<Longrightarrow> \<not> prefix sub u) \<Longrightarrow> py_count t sub = 0"
proof (induction t)
  case Nil
  then show ?case by simp
next
  case (Cons c cs)
  have "\<not> prefix sub (c # cs)" using Cons.prems(2) [of "c # cs"] by simp
  moreover have "py_count cs sub = 0"
    using Cons.IH Cons.prems by (simp add: suffix_ConsI)
  ultimately show ?case using Cons.prems(1) by simp
qed

text \<open>
  A beginning \<open>q\<close> of the result is a beginning of the input, or it runs into the first
  inserted \<open>new\<close>: then the part \<open>q1\<close> before it was copied from the input, where an
  occurrence of \<open>old\<close> follows it.
\<close>

lemma prefix_replace_shape:
  "old \<noteq> [] \<Longrightarrow> prefix q (py_replace s old new) \<Longrightarrow>
     prefix q s \<or>
     (\<exists>q1 q2. q = q1 @ q2 \<and> q2 \<noteq> [] \<and> prefix (q1 @ old) s \<and> (prefix q2 new \<or> prefix new q2))"
proof (induction s old new arbitrary: q rule: py_replace.induct)
  case (1 old new)
  then show ?case by simp
next
  case (2 c cs old new)
  show ?case
  proof (cases "prefix old (c # cs)")
    case True
    show ?thesis
    proof (cases "q = []")
      case True
      then show ?thesis by simp
    next
      case False
      from 2 True have "prefix q (new @ py_replace (drop (length old) (c # cs)) old new)"
        by simp
      then have "prefix q new \<or> prefix new q"
        unfolding prefix_append by (auto simp: prefix_def)
      with False True
      have "q = [] @ q \<and> q \<noteq> [] \<and> prefix ([] @ old) (c # cs) \<and> (prefix q new \<or> prefix new q)"
        by simp
      then show ?thesis by blast
    qed
  next
    case False
    with 2 have pq: "prefix q (c # py_replace cs old new)" by simp
    show ?thesis
    proof (cases q)
      case Nil
      then show ?thesis by simp
    next
      case (Cons a q')
      with pq have ac: "a = c" and "prefix q' (py_replace cs old new)" by simp_all
      with 2 False
      have "prefix q' cs \<or>
        (\<exists>q1 q2. q' = q1 @ q2 \<and> q2 \<noteq> [] \<and> prefix (q1 @ old) cs \<and> (prefix q2 new \<or> prefix new q2))"
        by blast
      then show ?thesis
      proof
        assume "prefix q' cs"
        then show ?thesis using Cons ac by simp
      next
        assume "\<exists>q1 q2. q' = q1 @ q2 \<and> q2 \<noteq> [] \<and> prefix (q1 @ old) cs
          \<and> (prefix q2 new \<or> prefix new q2)"
        then obtain q1 q2 where h: "q' = q1 @ q2" "q2 \<noteq> []" "prefix (q1 @ old) cs"
          "prefix q2 new \<or> prefix new q2"
          by blast
        then have "q = (c # q1) @ q2 \<and> q2 \<noteq> [] \<and> prefix ((c # q1) @ old) (c # cs)
          \<and> (prefix q2 new \<or> prefix new q2)"
          using Cons ac by simp
        then show ?thesis by blast
      qed
    qed
  qed
qed

text \<open>An end of the result is an end of \<open>new\<close> followed by the result for some input.\<close>

lemma suffix_replace_shape:
  "old \<noteq> [] \<Longrightarrow> suffix u (py_replace s old new) \<Longrightarrow>
     \<exists>g s'. suffix g new \<and> u = g @ py_replace s' old new"
proof (induction s old new rule: py_replace.induct)
  case (1 old new)
  then have "suffix [] new \<and> u = [] @ py_replace [] old new" by simp
  then show ?case by blast
next
  case (2 c cs old new)
  show ?case
  proof (cases "prefix old (c # cs)")
    case True
    with 2 have "suffix u (new @ py_replace (drop (length old) (c # cs)) old new)" by simp
    then have "suffix u (py_replace (drop (length old) (c # cs)) old new)
       \<or> (\<exists>g. suffix g new \<and> u = g @ py_replace (drop (length old) (c # cs)) old new)"
      by (auto simp: suffix_append)
    then show ?thesis using 2 True by blast
  next
    case False
    with 2 have "suffix u (c # py_replace cs old new)" by simp
    then have "u = c # py_replace cs old new \<or> suffix u (py_replace cs old new)"
      by (simp add: suffix_Cons)
    then show ?thesis
    proof
      assume "u = c # py_replace cs old new"
      then have "suffix [] new \<and> u = [] @ py_replace (c # cs) old new"
        using False 2 by simp
      then show ?thesis by blast
    next
      assume "suffix u (py_replace cs old new)"
      then show ?thesis using 2 False by blast
    qed
  qed
qed

lemma no_prefix_after_replace:
  assumes a: "apart old new" and b: "apart new old" and oldne: "old \<noteq> []"
    and g: "suffix g new"
  shows "\<not> prefix old (g @ py_replace s old new)"
proof
  assume p: "prefix old (g @ py_replace s old new)"
  show False
  proof (cases "g = []")
    case True
    with p oldne have "prefix old s \<or>
      (\<exists>q1 q2. old = q1 @ q2 \<and> q2 \<noteq> [] \<and> prefix (q1 @ old) s \<and> (prefix q2 new \<or> prefix new q2))"
      using prefix_replace_shape [of old old s new] by simp
    then show False
    proof
      assume ps: "prefix old s"
      then obtain c cs where s: "s = c # cs" using oldne by (cases s) auto
      with ps p True oldne have "prefix old (new @ py_replace (drop (length old) s) old new)"
        by simp
      then have "prefix old new \<or> prefix new old"
        unfolding prefix_append by (auto simp: prefix_def)
      moreover have "old \<in> set (suffixes old)" by simp
      ultimately show False using a oldne unfolding apart_def by blast
    next
      assume "\<exists>q1 q2. old = q1 @ q2 \<and> q2 \<noteq> [] \<and> prefix (q1 @ old) s
        \<and> (prefix q2 new \<or> prefix new q2)"
      then obtain q1 q2 where h: "old = q1 @ q2" "q2 \<noteq> []" "prefix q2 new \<or> prefix new q2"
        by blast
      then have "q2 \<in> set (suffixes old)" by (simp add: suffix_def)
      then show False using a h unfolding apart_def by blast
    qed
  next
    case False
    from p have "prefix old g \<or> prefix g old"
      unfolding prefix_append by (auto simp: prefix_def)
    moreover have "g \<in> set (suffixes new)" using g by simp
    ultimately show False using b False unfolding apart_def by blast
  qed
qed

lemma count_after_replace_zero:
  assumes a: "apart old new" and b: "apart new old" and ne: "old \<noteq> []"
  shows "py_count (py_replace s old new) old = 0"
proof (rule count_zero_if [OF ne])
  fix u
  assume "suffix u (py_replace s old new)"
  then obtain g s' where "suffix g new" "u = g @ py_replace s' old new"
    using suffix_replace_shape [OF ne] by blast
  then show "\<not> prefix old u"
    using no_prefix_after_replace [OF a b ne] by simp
qed

lemma bad_gone: "py_count (py_replace s bad_literal corrected_literal) bad_literal = 0"
  by (rule count_after_replace_zero [OF apart_bad_corrected apart_corrected_bad
        bad_literal_nonempty])

lemma replace_unchanged:
  "old \<noteq> [] \<Longrightarrow> py_count s old = 0 \<Longrightarrow> py_replace s old new = s"
  by (induction s old new rule: py_replace.induct) (auto split: if_splits)

subsection \<open>The count of the new text\<close>

lemma occurrences_skip: "apart xs p \<Longrightarrow> occurrences p (xs @ r) = occurrences p r"
proof (induction xs)
  case Nil
  then show ?case by simp
next
  case (Cons x xs)
  from Cons.prems have "\<not> prefix p (x # xs @ r)" by (rule apart_Cons_prefix)
  moreover have "occurrences p (xs @ r) = occurrences p r"
    using Cons by (blast dest: apart_Cons)
  ultimately show ?case by simp
qed

lemma replace_copy:
  "old \<noteq> [] \<Longrightarrow> apart xs old \<Longrightarrow> py_replace (xs @ r) old new = xs @ py_replace r old new"
proof (induction xs)
  case Nil
  then show ?case by simp
next
  case (Cons x xs)
  then have "\<not> prefix old (x # xs @ r)" by (blast dest: apart_Cons_prefix)
  moreover have "py_replace (xs @ r) old new = xs @ py_replace r old new"
    using Cons by (blast dest: apart_Cons)
  ultimately show ?case using Cons.prems(1) by simp
qed

lemma count_eq_occurrences:
  "p \<noteq> [] \<Longrightarrow> apart (tl p) p \<Longrightarrow> py_count t p = occurrences p t"
proof (induction t p rule: py_count.induct)
  case (1 sub)
  then show ?case by simp
next
  case (2 c cs sub)
  show ?case
  proof (cases "prefix sub (c # cs)")
    case True
    then obtain r where r: "c # cs = sub @ r" by (auto simp: prefix_def)
    then have d: "drop (length sub) (c # cs) = r" by simp
    from r 2(3) have cs: "cs = tl sub @ r" by (cases sub) auto
    have "py_count r sub = occurrences sub r" using 2 True d by simp
    moreover have "occurrences sub cs = occurrences sub r"
      unfolding cs using 2(4) by (rule occurrences_skip)
    ultimately show ?thesis using True 2(3) d by simp
  next
    case False
    with 2 show ?thesis by simp
  qed
qed

lemma prefix_replace_iff:
  assumes ne: "old \<noteq> []" and a3: "apart p old" and a4: "apart (tl p) new"
    and np: "\<not> prefix old s"
  shows "prefix p (py_replace s old new) \<longleftrightarrow> prefix p s"
proof
  assume "prefix p (py_replace s old new)"
  then have "prefix p s \<or> (\<exists>q1 q2. p = q1 @ q2 \<and> q2 \<noteq> [] \<and> prefix (q1 @ old) s
      \<and> (prefix q2 new \<or> prefix new q2))"
    using prefix_replace_shape [OF ne] by blast
  then show "prefix p s"
  proof
    assume "prefix p s"
    then show ?thesis .
  next
    assume "\<exists>q1 q2. p = q1 @ q2 \<and> q2 \<noteq> [] \<and> prefix (q1 @ old) s
      \<and> (prefix q2 new \<or> prefix new q2)"
    then obtain q1 q2 where h: "p = q1 @ q2" "q2 \<noteq> []" "prefix (q1 @ old) s"
      "prefix q2 new \<or> prefix new q2" by blast
    show ?thesis
    proof (cases q1)
      case Nil
      with h(3) np show ?thesis by simp
    next
      case (Cons a q1')
      with h(1) have "tl p = q1' @ q2" by simp
      then have "q2 \<in> set (suffixes (tl p))" by (simp add: suffix_def)
      with a4 h(2) h(4) show ?thesis unfolding apart_def by blast
    qed
  qed
next
  assume "prefix p s"
  then obtain r where "s = p @ r" by (auto simp: prefix_def)
  then have "py_replace s old new = p @ py_replace r old new"
    using replace_copy [OF ne a3] by simp
  then show "prefix p (py_replace s old new)" by simp
qed

lemma occurrences_after_replace:
  "old \<noteq> [] \<Longrightarrow> prefix p new \<Longrightarrow> p \<noteq> [] \<Longrightarrow> apart (tl new) p \<Longrightarrow> apart old p \<Longrightarrow>
   apart p old \<Longrightarrow> apart (tl p) new \<Longrightarrow>
   occurrences p (py_replace s old new) = py_count s old + occurrences p s"
proof (induction s old new rule: py_replace.induct)
  case (1 old new)
  then show ?case by simp
next
  case (2 c cs old new)
  show ?case
  proof (cases "prefix old (c # cs)")
    case True
    then obtain r where r: "c # cs = old @ r" by (auto simp: prefix_def)
    then have d: "drop (length old) (c # cs) = r" by simp
    have ih: "occurrences p (py_replace r old new) = py_count r old + occurrences p r"
      using 2 True d by simp
    obtain n ns where new: "new = n # ns" using 2(5,6) by (cases new) auto
    have "prefix p (n # ns @ py_replace r old new)"
      using 2(5) new prefix_prefix [of p new "py_replace r old new"] by simp
    then have "occurrences p (new @ py_replace r old new)
        = 1 + occurrences p (ns @ py_replace r old new)"
      using new by simp
    also have "occurrences p (ns @ py_replace r old new) = occurrences p (py_replace r old new)"
      using 2(7) new by (simp add: occurrences_skip)
    finally have lhs: "occurrences p (py_replace (c # cs) old new)
        = 1 + (py_count r old + occurrences p r)"
      using True 2(4) d ih by simp
    have "occurrences p (old @ r) = occurrences p r"
      using 2(8) by (rule occurrences_skip)
    then have "occurrences p (c # cs) = occurrences p r" using r by simp
    moreover have "py_count (c # cs) old = 1 + py_count r old"
      using True 2(4) d by simp
    ultimately show ?thesis using lhs by simp
  next
    case False
    have ih: "occurrences p (py_replace cs old new) = py_count cs old + occurrences p cs"
      using 2 False by simp
    have "prefix p (py_replace (c # cs) old new) \<longleftrightarrow> prefix p (c # cs)"
      using prefix_replace_iff [OF 2(4) 2(9) 2(10) False] .
    then have "prefix p (c # py_replace cs old new) \<longleftrightarrow> prefix p (c # cs)"
      using False 2(4) by simp
    then show ?thesis using False 2(4) ih by simp
  qed
qed

lemma count_after_replace:
  assumes "old \<noteq> []" "prefix p new" "p \<noteq> []" "apart (tl new) p" "apart old p"
    "apart p old" "apart (tl p) new" "apart (tl p) p"
  shows "py_count (py_replace s old new) p = py_count s old + py_count s p"
  using assms by (simp add: count_eq_occurrences occurrences_after_replace)

lemma corrected_count:
  "py_count (py_replace s bad_literal corrected_literal) corrected_literal
     = py_count s bad_literal + py_count s corrected_literal"
  by (rule count_after_replace)
     (simp_all add: apart_def bad_literal_def corrected_literal_def)

lemma probe_count:
  "py_count (py_replace s bad_literal corrected_literal) corrected_probe
     = py_count s bad_literal + py_count s corrected_probe"
  by (rule count_after_replace)
     (simp_all add: apart_def bad_literal_def corrected_literal_def corrected_probe_def)

section \<open>Properties of the locator\<close>

lemma potential_file_suffix: "suffix ''mcp.py'' (potential_file d)"
  by (simp add: potential_file_def path_join_def join_step_def suffix_def)

lemma potential_file_nonempty: "potential_file d \<noteq> []"
  using potential_file_suffix [of d] by auto

lemma potential_file_not_backup: "potential_file d \<noteq> q @ ''.backup''"
proof
  assume e: "potential_file d = q @ ''.backup''"
  obtain pre where "potential_file d = pre @ ''mcp.py''"
    using potential_file_suffix [of d] by (auto simp: suffix_def)
  then have "last (potential_file d) = CHR ''y''" by simp
  moreover have "last (q @ ''.backup'') = CHR ''p''" by simp
  ultimately show False using e by simp
qed

lemma first_existing_None:
  "first_existing fs ds = None \<longleftrightarrow> (\<forall>d \<in> set ds. \<not> path_exists fs (potential_file d))"
  by (induction ds) auto

lemma first_existing_Some:
  "first_existing fs ds = Some p \<longleftrightarrow>
     (\<exists>pre d post. ds = pre @ d # post \<and> p = potential_file d \<and> path_exists fs p \<and>
        (\<forall>d' \<in> set pre. \<not> path_exists fs (potential_file d')))"
proof (induction ds)
  case Nil
  then show ?case by simp
next
  case (Cons a ds)
  show ?case
  proof (cases "path_exists fs (potential_file a)")
    case True
    have "(\<exists>pre d post. a # ds = pre @ d # post \<and> p = potential_file d \<and> path_exists fs p \<and>
        (\<forall>d' \<in> set pre. \<not> path_exists fs (potential_file d'))) \<longleftrightarrow> p = potential_file a"
    proof
      assume "\<exists>pre d post. a # ds = pre @ d # post \<and> p = potential_file d \<and> path_exists fs p \<and>
        (\<forall>d' \<in> set pre. \<not> path_exists fs (potential_file d'))"
      then obtain pre d post where h: "a # ds = pre @ d # post" "p = potential_file d"
        "\<forall>d' \<in> set pre. \<not> path_exists fs (potential_file d')" by blast
      show "p = potential_file a"
      proof (cases pre)
        case Nil
        with h show ?thesis by simp
      next
        case (Cons b pre')
        with h(1) have "a \<in> set pre" by simp
        with h(3) True show ?thesis by blast
      qed
    next
      assume "p = potential_file a"
      with True have "a # ds = [] @ a # ds \<and> p = potential_file a \<and> path_exists fs p \<and>
        (\<forall>d' \<in> set []. \<not> path_exists fs (potential_file d'))" by simp
      then show "\<exists>pre d post. a # ds = pre @ d # post \<and> p = potential_file d \<and> path_exists fs p \<and>
        (\<forall>d' \<in> set pre. \<not> path_exists fs (potential_file d'))" by blast
    qed
    with True show ?thesis by auto
  next
    case False
    have "(\<exists>pre d post. a # ds = pre @ d # post \<and> p = potential_file d \<and> path_exists fs p \<and>
        (\<forall>d' \<in> set pre. \<not> path_exists fs (potential_file d'))) \<longleftrightarrow>
      (\<exists>pre d post. ds = pre @ d # post \<and> p = potential_file d \<and> path_exists fs p \<and>
        (\<forall>d' \<in> set pre. \<not> path_exists fs (potential_file d')))" (is "?L \<longleftrightarrow> ?R")
    proof
      assume ?L
      then obtain pre d post where h: "a # ds = pre @ d # post" "p = potential_file d"
        "path_exists fs p" "\<forall>d' \<in> set pre. \<not> path_exists fs (potential_file d')" by blast
      show ?R
      proof (cases pre)
        case Nil
        with h False show ?thesis by simp
      next
        case (Cons b pre')
        with h have "ds = pre' @ d # post \<and> p = potential_file d \<and> path_exists fs p \<and>
          (\<forall>d' \<in> set pre'. \<not> path_exists fs (potential_file d'))" by simp
        then show ?thesis by blast
      qed
    next
      assume ?R
      then obtain pre d post where h: "ds = pre @ d # post" "p = potential_file d"
        "path_exists fs p" "\<forall>d' \<in> set pre. \<not> path_exists fs (potential_file d')" by blast
      with False have "a # ds = (a # pre) @ d # post \<and> p = potential_file d \<and> path_exists fs p \<and>
          (\<forall>d' \<in> set (a # pre). \<not> path_exists fs (potential_file d'))" by simp
      then show ?L by blast
    qed
    with False Cons show ?thesis by simp
  qed
qed

lemma first_existing_cong:
  "(\<And>d. d \<in> set ds \<Longrightarrow> path_exists fs' (potential_file d) = path_exists fs (potential_file d))
   \<Longrightarrow> first_existing fs' ds = first_existing fs ds"
  by (induction ds) auto

lemma find_Some_facts:
  assumes "find_cai_mcp_file env fs = Some p"
  shows "path_exists fs p" and "p \<noteq> []" and "p \<noteq> q @ ''.backup''"
proof -
  from assms obtain d where d: "p = potential_file d" "path_exists fs p"
    unfolding find_cai_mcp_file_def first_existing_Some by blast
  then show "path_exists fs p" by simp
  from d show "p \<noteq> []" by (simp add: potential_file_nonempty)
  from d show "p \<noteq> q @ ''.backup''" by (simp add: potential_file_not_backup)
qed

lemma find_after_backup:
  "find_cai_mcp_file env (fs(q @ ''.backup'' \<mapsto> x)) = find_cai_mcp_file env fs"
  unfolding find_cai_mcp_file_def
  by (rule first_existing_cong) (simp add: path_exists_def potential_file_not_backup)

lemma find_after_write:
  "fs p \<noteq> None \<Longrightarrow> find_cai_mcp_file env (fs(p \<mapsto> x)) = find_cai_mcp_file env fs"
  unfolding find_cai_mcp_file_def
  by (rule first_existing_cong) (simp add: path_exists_def)

section \<open>What a run does\<close>

lemma verify_fix_after_replace:
  "verify_fix n (py_replace c bad_literal corrected_literal) =
     (True, [FixApplied, BeforeLine n, AfterLine 0,
             AddedLine (py_count c bad_literal + py_count c corrected_probe),
             AllFixed, NextStepsHeader, NextStep 1, NextStep 2, NextStep 3, NextStep 4])"
  by (simp add: verify_fix_def bad_gone probe_count)

lemma run_on_file:
  assumes f: "find_cai_mcp_file env fs = Some p" and c: "fs p = Some (File c)"
  shows "fix_cai_mcp_bug env fs =
    (Returned True,
     (let fs1 = (if fs (p @ ''.backup'') = None then fs(p @ ''.backup'' \<mapsto> File c) else fs)
      in if py_count c bad_literal = 0 then fs1
         else fs1(p \<mapsto> File (py_replace c bad_literal corrected_literal))),
     [Title, Rule 40, FoundInstallation (dirname p), TargetFile (basename p)] @
     (if fs (p @ ''.backup'') = None then [CreatingBackup, BackupCreated (p @ ''.backup'')] else []) @
     [ReadingFile, FoundCalls (py_count c bad_literal)] @
     (if py_count c bad_literal = 0 then [NoFixesNeeded]
      else ApplyingFixes # snd (verify_fix (py_count c bad_literal)
                                  (py_replace c bad_literal corrected_literal))))"
proof -
  have ne: "p \<noteq> []" and nb: "p \<noteq> p @ ''.backup''"
    using find_Some_facts [OF f] by blast+
  show ?thesis
  proof (cases "fs (p @ ''.backup'') = None")
    case True
    then have cb: "create_backup fs p (p @ ''.backup'') =
      (None, fs(p @ ''.backup'' \<mapsto> File c), [CreatingBackup, BackupCreated (p @ ''.backup'')])"
      using c by (simp add: create_backup_def path_exists_def read_file_def write_file_def)
    have rd: "read_file (fs(p @ ''.backup'' \<mapsto> File c)) p = Inr c"
      using c nb by (simp add: read_file_def)
    show ?thesis
      unfolding fix_cai_mcp_bug_def
      using f ne nb True c cb rd
      by (simp add: Let_def write_file_def read_file_def verify_fix_after_replace)
  next
    case False
    then have cb: "create_backup fs p (p @ ''.backup'') = (None, fs, [])"
      by (simp add: create_backup_def path_exists_def)
    have rd: "read_file fs p = Inr c"
      using c by (simp add: read_file_def)
    show ?thesis
      unfolding fix_cai_mcp_bug_def
      using f ne False c cb rd
      by (auto simp add: Let_def write_file_def read_file_def verify_fix_after_replace)
  qed
qed

lemma run_on_directory:
  assumes f: "find_cai_mcp_file env fs = Some p" and c: "fs p = Some Dir"
  shows "fix_cai_mcp_bug env fs =
    (Raised (IsADirectoryError p), fs,
     [Title, Rule 40, FoundInstallation (dirname p), TargetFile (basename p)] @
     (if fs (p @ ''.backup'') = None then [CreatingBackup] else [ReadingFile]))"
proof -
  have ne: "p \<noteq> []" using find_Some_facts [OF f] by blast
  show ?thesis
    unfolding fix_cai_mcp_bug_def
    using f ne c
    by (simp add: Let_def create_backup_def path_exists_def read_file_def)
qed

lemma run_not_found:
  assumes f: "find_cai_mcp_file env fs = None"
  shows "fix_cai_mcp_bug env fs =
    (Returned False, fs, [Title, Rule 40, CaiNotFound, EnsureInstalled, PipInstall])"
  unfolding fix_cai_mcp_bug_def using f by simp

section \<open>The concrete installation, evaluated\<close>

lemma demo_search_paths:
  "search_paths demo_env = [''/s'', ''/u'', ''/v/lib/python3.11/site-packages'']"
  by (simp add: search_paths_def in_virtualenv_def venv_site_packages_def demo_env_def
        path_join_def join_step_def str_nat.simps suffix_to_prefix)

lemma demo_potential_files:
  "potential_file ''/s'' = ''/s/cai/repl/commands/mcp.py''"
  "potential_file ''/u'' = ''/u/cai/repl/commands/mcp.py''"
  "potential_file ''/v/lib/python3.11/site-packages'' = demo_path"
  by (simp_all add: potential_file_def path_join_def join_step_def demo_path_def suffix_to_prefix)

lemma demo_find: "find_cai_mcp_file demo_env demo_fs = Some demo_path"
  by (simp add: find_cai_mcp_file_def demo_search_paths demo_potential_files path_exists_def
        demo_fs_def demo_path_def)

lemma demo_find_patched: "find_cai_mcp_file demo_env demo_fs_patched = Some demo_path"
  by (simp add: find_cai_mcp_file_def demo_search_paths demo_potential_files path_exists_def
        demo_fs_patched_def demo_path_def)

lemma demo_find_clean: "find_cai_mcp_file demo_env demo_fs_clean = Some demo_path"
  by (simp add: find_cai_mcp_file_def demo_search_paths demo_potential_files path_exists_def
        demo_fs_clean_def demo_path_def)

lemma demo_replace: "py_replace demo_content bad_literal corrected_literal = demo_fixed"
  by (simp add: demo_content_def demo_fixed_def bad_literal_def corrected_literal_def)

lemma demo_counts:
  "py_count demo_content bad_literal = 3"
  "py_count demo_content corrected_literal = 0"
  "py_count demo_fixed bad_literal = 0"
  "py_count demo_fixed corrected_literal = 3"
  by (simp_all add: demo_content_def demo_fixed_def bad_literal_def corrected_literal_def)

lemma demo_fixed_probe: "py_count demo_fixed corrected_probe = 3"
  by (simp add: demo_fixed_def corrected_probe_def)

lemma demo_clean_count: "py_count demo_clean bad_literal = 0"
  by (simp add: demo_clean_def bad_literal_def)

lemma demo_stale_counts:
  "py_count demo_stale bad_literal = 1"
  "py_count demo_stale corrected_probe = 0"
  by (simp_all add: demo_stale_def bad_literal_def corrected_probe_def)

lemma demo_two_lookup:
  "path_exists demo_fs_two ''/s/cai/repl/commands/mcp.py'' = False"
  "path_exists demo_fs_two ''/u/cai/repl/commands/mcp.py'' = True"
  "path_exists demo_fs_two demo_path = True"
  by (simp_all add: path_exists_def demo_fs_two_def demo_path_def)

lemma demo_find_empty: "find_cai_mcp_file demo_env Map.empty = None"
  by (simp add: find_cai_mcp_file_def first_existing_None path_exists_def)

lemma demo_lookup:
  "demo_fs demo_path = Some (File demo_content)"
  "demo_fs (demo_path @ ''.backup'') = None"
  "demo_fs_patched demo_path = Some (File demo_fixed)"
  "demo_fs_patched (demo_path @ ''.backup'') = Some (File demo_content)"
  "demo_fs_clean demo_path = Some (File demo_clean)"
  "demo_fs_clean (demo_path @ ''.backup'') = None"
  by (simp_all add: demo_fs_def demo_fs_patched_def demo_fs_clean_def demo_path_def)

lemma read_after_write: "write_file fs p text = Inr fs' \<Longrightarrow> read_file fs' p = Inr text"
  by (auto simp: write_file_def read_file_def split: option.splits node.splits)

section \<open>The claims of the specification\<close>

text \<open>
  In the statements below \<open>fst r\<close> is the outcome of a run \<open>r\<close>, \<open>fst (snd r)\<close> the file
  system it leaves and \<open>snd (snd r)\<close> the lines it printed. A run is said to find a regular
  file when the locator returns a path \<open>p\<close> and \<open>fs p = Some (File c)\<close>; a path that exists
  as a directory makes \<^verbatim>\<open>open\<close> raise (lemma \<open>run_on_directory\<close>).
\<close>

subsection \<open>C1: the patch removes every call and reports success\<close>

text \<open>
  C1. For every content \<open>c\<close> of the located file: the replaced content holds no occurrence of
  \<^verbatim>\<open>server.params.get(\<close>; it holds at least as many occurrences of the corrected literal
  as \<open>c\<close> held of the bad one, in fact exactly that many more than \<open>c\<close> held already, both
  for the literal written (line 87) and for the one counted (line 98); the function returns
  \<^verbatim>\<open>True\<close> and the file holds the replaced content. With three calls and no
  corrected literal beforehand, the result holds the corrected literal three times.
\<close>

theorem patch_replaces_every_call:
  assumes "find_cai_mcp_file env fs = Some p" and "fs p = Some (File c)"
  shows "py_count (py_replace c bad_literal corrected_literal) bad_literal = 0
    \<and> py_count c bad_literal \<le> py_count (py_replace c bad_literal corrected_literal) corrected_literal
    \<and> py_count (py_replace c bad_literal corrected_literal) corrected_literal
        = py_count c bad_literal + py_count c corrected_literal
    \<and> py_count (py_replace c bad_literal corrected_literal) corrected_probe
        = py_count c bad_literal + py_count c corrected_probe
    \<and> fst (fix_cai_mcp_bug env fs) = Returned True
    \<and> fst (snd (fix_cai_mcp_bug env fs)) p
        = Some (File (py_replace c bad_literal corrected_literal))"
proof -
  have nb: "p \<noteq> p @ ''.backup''" using find_Some_facts [OF assms(1)] by blast
  have "fst (snd (fix_cai_mcp_bug env fs)) p
        = Some (File (py_replace c bad_literal corrected_literal))"
    unfolding run_on_file [OF assms]
    using assms(2) nb by (simp add: Let_def replace_unchanged bad_literal_nonempty)
  moreover have "fst (fix_cai_mcp_bug env fs) = Returned True"
    unfolding run_on_file [OF assms] by simp
  ultimately show ?thesis
    by (simp add: bad_gone corrected_count probe_count)
qed

theorem patch_replaces_every_call_witness:
  "find_cai_mcp_file demo_env demo_fs = Some demo_path
   \<and> demo_fs demo_path = Some (File demo_content)
   \<and> py_count demo_content bad_literal = 3
   \<and> py_count demo_fixed bad_literal = 0
   \<and> py_count demo_fixed corrected_literal = 3
   \<and> fst (fix_cai_mcp_bug demo_env demo_fs) = Returned True
   \<and> fst (snd (fix_cai_mcp_bug demo_env demo_fs)) demo_path = Some (File demo_fixed)"
  using patch_replaces_every_call [OF demo_find demo_lookup(1)]
  by (simp add: demo_find demo_lookup demo_counts demo_replace)

subsection \<open>C2: the warning branch\<close>

text \<open>
  C2, as the code has it. When the text read back still holds the bad literal, lines 97 to 115
  print the line "Fix applied successfully", the three counts and the warning, raise
  nothing, and return \<^verbatim>\<open>False\<close>: the flag reports failure, and \<open>main\<close> answers it with
  its failure message. The flag does not report a success, partial or other.
\<close>

theorem warning_branch_reports_failure:
  "0 < py_count fixed_content bad_literal \<Longrightarrow>
     verify_fix before_count fixed_content =
       (False, [FixApplied, BeforeLine before_count,
                AfterLine (py_count fixed_content bad_literal),
                AddedLine (py_count fixed_content corrected_probe),
                WarningRemain (py_count fixed_content bad_literal)])
     \<and> main_report (fst (verify_fix before_count fixed_content)) = [Blank, FixFailed]"
  by (simp add: verify_fix_def main_report_def Let_def)

theorem warning_branch_reports_failure_witness:
  "0 < py_count demo_stale bad_literal
   \<and> verify_fix 1 demo_stale =
       (False, [FixApplied, BeforeLine 1, AfterLine 1, AddedLine 0, WarningRemain 1])
   \<and> main_report (fst (verify_fix 1 demo_stale)) = [Blank, FixFailed]"
proof -
  have h: "0 < py_count demo_stale bad_literal"
    by (simp add: demo_stale_counts)
  show ?thesis
    using warning_branch_reports_failure [OF h, of 1]
    by (simp add: demo_stale_counts main_report_def)
qed

text \<open>
  Read as "the returned flag reports success", the sentence fails: for a text read back
  with one call left, the flag is \<^verbatim>\<open>False\<close>.
\<close>

theorem warning_returns_false_counterexample:
  "0 < py_count demo_stale bad_literal \<and> \<not> fst (verify_fix 1 demo_stale)"
  by (simp add: verify_fix_def demo_stale_counts)

subsection \<open>C3: the backup\<close>

text \<open>
  C3. In every run that locates the file: a backup that exists keeps its node, whatever the
  run does afterwards and whether it returns or raises; where none exists and the located
  path is a regular file, the run leaves a backup whose content is the content the file had
  when the run began.
\<close>

theorem backup_kept_or_copied:
  assumes f: "find_cai_mcp_file env fs = Some p"
  shows "(\<forall>b. fs (p @ ''.backup'') = Some b \<longrightarrow>
            fst (snd (fix_cai_mcp_bug env fs)) (p @ ''.backup'') = Some b)
    \<and> (\<forall>c. fs (p @ ''.backup'') = None \<longrightarrow> fs p = Some (File c) \<longrightarrow>
            fst (snd (fix_cai_mcp_bug env fs)) (p @ ''.backup'') = Some (File c))"
proof -
  have nb: "p \<noteq> p @ ''.backup''" and ex: "path_exists fs p"
    using find_Some_facts [OF f] by blast+
  then obtain n where n: "fs p = Some n" by (auto simp: path_exists_def)
  show ?thesis
  proof (cases n)
    case (File c)
    with n have c: "fs p = Some (File c)" by simp
    show ?thesis
      unfolding run_on_file [OF f c] using c nb by (auto simp: Let_def)
  next
    case Dir
    with n have d: "fs p = Some Dir" by simp
    show ?thesis
      unfolding run_on_directory [OF f d] using d by simp
  qed
qed

theorem backup_kept_or_copied_witness:
  "find_cai_mcp_file demo_env demo_fs = Some demo_path
   \<and> demo_fs (demo_path @ ''.backup'') = None
   \<and> demo_fs demo_path = Some (File demo_content)
   \<and> fst (snd (fix_cai_mcp_bug demo_env demo_fs)) (demo_path @ ''.backup'')
       = Some (File demo_content)
   \<and> find_cai_mcp_file demo_env demo_fs_patched = Some demo_path
   \<and> demo_fs_patched demo_path = Some (File demo_fixed)
   \<and> demo_fs_patched (demo_path @ ''.backup'') = Some (File demo_content)
   \<and> fst (snd (fix_cai_mcp_bug demo_env demo_fs_patched)) (demo_path @ ''.backup'')
       = Some (File demo_content)"
  using backup_kept_or_copied [OF demo_find] backup_kept_or_copied [OF demo_find_patched]
  by (simp add: demo_find demo_find_patched demo_lookup)

subsection \<open>C4: the locator\<close>

text \<open>
  C4. The candidates are the system site-packages directories, then the user directory,
  then the virtual environment's directory, the last one only when line 31 holds. The
  locator returns \<^verbatim>\<open>None\<close> exactly when no candidate holds the file, and a path exactly
  when that path is the file of a candidate that exists while no earlier candidate does.
\<close>

theorem locator_first_match:
  "search_paths env =
     site_getsitepackages env @ [site_getusersitepackages env] @
     (if sys_has_real_prefix env \<or>
         (\<exists>b. sys_base_prefix env = Some b \<and> b \<noteq> sys_prefix env)
      then [venv_site_packages env] else [])
   \<and> (find_cai_mcp_file env fs = None \<longleftrightarrow>
        (\<forall>d \<in> set (search_paths env). \<not> path_exists fs (potential_file d)))
   \<and> (find_cai_mcp_file env fs = Some p \<longleftrightarrow>
        (\<exists>pre d post. search_paths env = pre @ d # post \<and> p = potential_file d \<and>
           path_exists fs p \<and> (\<forall>d' \<in> set pre. \<not> path_exists fs (potential_file d'))))"
proof -
  have "in_virtualenv env \<longleftrightarrow>
    (sys_has_real_prefix env \<or> (\<exists>b. sys_base_prefix env = Some b \<and> b \<noteq> sys_prefix env))"
    by (simp add: in_virtualenv_def split: option.splits)
  then show ?thesis
    unfolding find_cai_mcp_file_def first_existing_None first_existing_Some
    by (simp add: search_paths_def)
qed

theorem locator_first_match_witness:
  "search_paths demo_env = [''/s'', ''/u'', ''/v/lib/python3.11/site-packages'']
   \<and> \<not> path_exists demo_fs_two (potential_file ''/s'')
   \<and> path_exists demo_fs_two (potential_file ''/u'')
   \<and> path_exists demo_fs_two (potential_file ''/v/lib/python3.11/site-packages'')
   \<and> find_cai_mcp_file demo_env demo_fs_two = Some (potential_file ''/u'')
   \<and> find_cai_mcp_file demo_env Map.empty = None"
proof -
  let ?p = "potential_file ''/u''"
  have "search_paths demo_env = [''/s''] @ ''/u'' # [''/v/lib/python3.11/site-packages'']
      \<and> ?p = potential_file ''/u'' \<and> path_exists demo_fs_two ?p
      \<and> (\<forall>d' \<in> set [''/s'']. \<not> path_exists demo_fs_two (potential_file d'))"
    by (simp add: demo_search_paths demo_potential_files demo_two_lookup)
  then have "\<exists>pre d post. search_paths demo_env = pre @ d # post \<and> ?p = potential_file d \<and>
      path_exists demo_fs_two ?p \<and> (\<forall>d' \<in> set pre. \<not> path_exists demo_fs_two (potential_file d'))"
    by blast
  then have "find_cai_mcp_file demo_env demo_fs_two = Some ?p"
    using locator_first_match [of demo_env demo_fs_two ?p] by blast
  moreover have "find_cai_mcp_file demo_env Map.empty = None"
    by (rule demo_find_empty)
  ultimately show ?thesis
    by (simp add: demo_search_paths demo_potential_files demo_two_lookup)
qed

subsection \<open>C5: a second run\<close>

text \<open>
  C5. After a run on a regular file, a second run counts zero calls, leaves the file system
  as the first run left it, and returns \<^verbatim>\<open>True\<close>; the file holds the replaced content
  after the first run and after the second.
\<close>

theorem second_run_changes_nothing:
  assumes f: "find_cai_mcp_file env fs = Some p" and c: "fs p = Some (File c)"
    and r: "fix_cai_mcp_bug env fs = (r1, fs1, out1)"
  shows "r1 = Returned True
    \<and> fs1 p = Some (File (py_replace c bad_literal corrected_literal))
    \<and> fix_cai_mcp_bug env fs1 =
        (Returned True, fs1,
         [Title, Rule 40, FoundInstallation (dirname p), TargetFile (basename p),
          ReadingFile, FoundCalls 0, NoFixesNeeded])"
proof -
  let ?c' = "py_replace c bad_literal corrected_literal"
  let ?bk = "p @ ''.backup''"
  have nb: "p \<noteq> ?bk" using find_Some_facts [OF f] by blast
  have r1: "r1 = Returned True" using r unfolding run_on_file [OF f c] by simp
  have fs1: "fs1 = (let fs0 = (if fs ?bk = None then fs(?bk \<mapsto> File c) else fs)
      in if py_count c bad_literal = 0 then fs0 else fs0(p \<mapsto> File ?c'))"
    using r unfolding run_on_file [OF f c] by simp
  have c': "fs1 p = Some (File ?c')"
    unfolding fs1 using c nb by (simp add: Let_def replace_unchanged bad_literal_nonempty)
  have bk: "fs1 ?bk \<noteq> None"
    unfolding fs1 using nb by (simp add: Let_def)
  have f1: "find_cai_mcp_file env fs1 = Some p"
    unfolding fs1 using f c nb by (simp add: Let_def find_after_backup find_after_write)
  have "fix_cai_mcp_bug env fs1 =
        (Returned True, fs1,
         [Title, Rule 40, FoundInstallation (dirname p), TargetFile (basename p),
          ReadingFile, FoundCalls 0, NoFixesNeeded])"
    unfolding run_on_file [OF f1 c'] using bk by (auto simp add: bad_gone)
  with r1 c' show ?thesis by simp
qed

theorem second_run_changes_nothing_witness:
  "find_cai_mcp_file demo_env demo_fs = Some demo_path
   \<and> demo_fs demo_path = Some (File demo_content)
   \<and> fst (fix_cai_mcp_bug demo_env demo_fs) = Returned True
   \<and> fst (snd (fix_cai_mcp_bug demo_env demo_fs)) demo_path = Some (File demo_fixed)
   \<and> fix_cai_mcp_bug demo_env (fst (snd (fix_cai_mcp_bug demo_env demo_fs))) =
        (Returned True, fst (snd (fix_cai_mcp_bug demo_env demo_fs)),
         [Title, Rule 40, FoundInstallation (dirname demo_path), TargetFile (basename demo_path),
          ReadingFile, FoundCalls 0, NoFixesNeeded])"
proof -
  obtain r1 fs1 out1 where r: "fix_cai_mcp_bug demo_env demo_fs = (r1, fs1, out1)"
    by (rule prod_cases3)
  show ?thesis
    using second_run_changes_nothing [OF demo_find demo_lookup(1) r]
    by (simp add: r demo_find demo_lookup demo_replace)
qed

subsection \<open>C6: no installation\<close>

text \<open>
  C6. When no candidate directory holds the file, the run returns \<^verbatim>\<open>False\<close> and the
  file system is the one it started from: no backup, no write.
\<close>

theorem not_found_changes_nothing:
  "(\<forall>d \<in> set (search_paths env). \<not> path_exists fs (potential_file d)) \<Longrightarrow>
     fix_cai_mcp_bug env fs =
       (Returned False, fs, [Title, Rule 40, CaiNotFound, EnsureInstalled, PipInstall])"
  by (rule run_not_found) (simp add: find_cai_mcp_file_def first_existing_None)

theorem not_found_changes_nothing_witness:
  "search_paths demo_env = [''/s'', ''/u'', ''/v/lib/python3.11/site-packages'']
   \<and> \<not> path_exists Map.empty (potential_file ''/s'')
   \<and> \<not> path_exists Map.empty (potential_file ''/u'')
   \<and> \<not> path_exists Map.empty (potential_file ''/v/lib/python3.11/site-packages'')
   \<and> fix_cai_mcp_bug demo_env Map.empty =
       (Returned False, Map.empty, [Title, Rule 40, CaiNotFound, EnsureInstalled, PipInstall])"
proof -
  have h: "\<forall>d \<in> set (search_paths demo_env). \<not> path_exists Map.empty (potential_file d)"
    by (simp add: path_exists_def)
  show ?thesis
    using not_found_changes_nothing [OF h]
    by (simp add: demo_search_paths path_exists_def)
qed

subsection \<open>C7: a file that needs no fix\<close>

text \<open>
  C7. When the located file holds no call, the run returns \<^verbatim>\<open>True\<close> and the file keeps
  its node. Where a backup exists the file system is unchanged altogether; where none
  exists, the backup created before the count is the only change.
\<close>

theorem already_patched_is_left_alone:
  assumes f: "find_cai_mcp_file env fs = Some p" and c: "fs p = Some (File c)"
    and z: "py_count c bad_literal = 0"
  shows "fix_cai_mcp_bug env fs =
      (Returned True,
       (if fs (p @ ''.backup'') = None then fs(p @ ''.backup'' \<mapsto> File c) else fs),
       [Title, Rule 40, FoundInstallation (dirname p), TargetFile (basename p)] @
       (if fs (p @ ''.backup'') = None then [CreatingBackup, BackupCreated (p @ ''.backup'')]
        else []) @
       [ReadingFile, FoundCalls 0, NoFixesNeeded])
    \<and> fst (snd (fix_cai_mcp_bug env fs)) p = fs p"
proof -
  have nb: "p \<noteq> p @ ''.backup''" using find_Some_facts [OF f] by blast
  show ?thesis
    unfolding run_on_file [OF f c] using z nb by (simp add: Let_def)
qed

theorem already_patched_is_left_alone_witness:
  "find_cai_mcp_file demo_env demo_fs_patched = Some demo_path
   \<and> demo_fs_patched demo_path = Some (File demo_fixed)
   \<and> py_count demo_fixed bad_literal = 0
   \<and> fix_cai_mcp_bug demo_env demo_fs_patched =
       (Returned True, demo_fs_patched,
        [Title, Rule 40, FoundInstallation (dirname demo_path), TargetFile (basename demo_path),
         ReadingFile, FoundCalls 0, NoFixesNeeded])"
  using already_patched_is_left_alone [OF demo_find_patched demo_lookup(3) demo_counts(3)]
  by (simp add: demo_find_patched demo_lookup demo_counts)

subsection \<open>C8: the exit status\<close>

text \<open>
  C8. Whatever flag \<open>fix_cai_mcp_bug\<close> returns, \<open>main\<close> prints its report for that flag,
  changes nothing in the file system and returns; the script's exit status is then 0, for
  \<^verbatim>\<open>False\<close> as for \<^verbatim>\<open>True\<close>. The status is 1 exactly when an exception came through.
\<close>

theorem logical_failure_exits_zero:
  "(\<forall>b. fst (fix_cai_mcp_bug env fs) = Returned b \<longrightarrow>
        fst (main env fs) = Returned ()
      \<and> snd (snd (main env fs)) = snd (snd (fix_cai_mcp_bug env fs)) @ main_report b
      \<and> fst (snd (main env fs)) = fst (snd (fix_cai_mcp_bug env fs))
      \<and> fst (script env fs) = 0)
   \<and> (\<forall>e. fst (fix_cai_mcp_bug env fs) = Raised e \<longrightarrow>
        fst (main env fs) = Raised e \<and> fst (script env fs) = 1)"
proof -
  obtain r fs' out where r: "fix_cai_mcp_bug env fs = (r, fs', out)"
    by (rule prod_cases3)
  show ?thesis
    by (cases r) (simp_all add: r main_def script_def)
qed

theorem logical_failure_exits_zero_witness:
  "fst (fix_cai_mcp_bug demo_env Map.empty) = Returned False
   \<and> fst (main demo_env Map.empty) = Returned ()
   \<and> snd (snd (main demo_env Map.empty)) =
        [Title, Rule 40, CaiNotFound, EnsureInstalled, PipInstall, Blank, FixFailed]
   \<and> fst (script demo_env Map.empty) = 0"
proof -
  have r: "fst (fix_cai_mcp_bug demo_env Map.empty) = Returned False"
    by (simp add: run_not_found [OF demo_find_empty])
  with logical_failure_exits_zero [of demo_env Map.empty]
  have "fst (main demo_env Map.empty) = Returned ()
      \<and> snd (snd (main demo_env Map.empty)) =
          snd (snd (fix_cai_mcp_bug demo_env Map.empty)) @ main_report False
      \<and> fst (script demo_env Map.empty) = 0"
    by blast
  with r show ?thesis
    by (simp add: run_not_found [OF demo_find_empty] main_report_def)
qed

subsection \<open>C9: the warning cannot be reached\<close>

text \<open>
  C9. The replaced content never holds the bad literal, so lines 97 to 115 return
  \<^verbatim>\<open>True\<close> on it; and since a file read after a write holds what was written
  (lemma \<open>read_after_write\<close>), no run that locates the file returns \<^verbatim>\<open>False\<close> or prints
  the warning.
\<close>

theorem warning_branch_unreachable:
  "py_count (py_replace c bad_literal corrected_literal) bad_literal = 0
   \<and> fst (verify_fix n (py_replace c bad_literal corrected_literal))
   \<and> (\<forall>p. find_cai_mcp_file env fs = Some p \<longrightarrow>
          fst (fix_cai_mcp_bug env fs) \<noteq> Returned False
        \<and> (\<forall>k. WarningRemain k \<notin> set (snd (snd (fix_cai_mcp_bug env fs)))))"
proof -
  have "fst (fix_cai_mcp_bug env fs) \<noteq> Returned False
        \<and> (\<forall>k. WarningRemain k \<notin> set (snd (snd (fix_cai_mcp_bug env fs))))"
    if f: "find_cai_mcp_file env fs = Some p" for p
  proof -
    have "path_exists fs p" using find_Some_facts [OF f] by blast
    then obtain nd where nd: "fs p = Some nd" by (auto simp: path_exists_def)
    show ?thesis
    proof (cases nd)
      case (File c)
      with nd have c: "fs p = Some (File c)" by simp
      show ?thesis
        unfolding run_on_file [OF f c] by (simp add: verify_fix_after_replace)
    next
      case Dir
      with nd have d: "fs p = Some Dir" by simp
      show ?thesis
        unfolding run_on_directory [OF f d] by simp
    qed
  qed
  then show ?thesis
    by (simp add: bad_gone verify_fix_after_replace)
qed

theorem warning_branch_unreachable_witness:
  "find_cai_mcp_file demo_env demo_fs = Some demo_path
   \<and> py_count demo_fixed bad_literal = 0
   \<and> fst (verify_fix 3 demo_fixed)
   \<and> fst (fix_cai_mcp_bug demo_env demo_fs) \<noteq> Returned False
   \<and> WarningRemain 3 \<notin> set (snd (snd (fix_cai_mcp_bug demo_env demo_fs)))"
  using warning_branch_unreachable [of demo_content 3 demo_env demo_fs]
  by (simp add: demo_find demo_replace demo_counts)

subsection \<open>C10: the backup comes before the count\<close>

text \<open>
  C10. When the located path is a regular file and no backup exists, the run creates the
  backup and prints its two lines before it prints the count, whatever the count is; with
  zero calls the run returns \<^verbatim>\<open>True\<close> and the new backup is its only change.
\<close>

theorem backup_precedes_count:
  assumes f: "find_cai_mcp_file env fs = Some p" and c: "fs p = Some (File c)"
    and b: "fs (p @ ''.backup'') = None"
  shows "fst (fix_cai_mcp_bug env fs) = Returned True
    \<and> fst (snd (fix_cai_mcp_bug env fs)) (p @ ''.backup'') = Some (File c)
    \<and> take 8 (snd (snd (fix_cai_mcp_bug env fs))) =
        [Title, Rule 40, FoundInstallation (dirname p), TargetFile (basename p),
         CreatingBackup, BackupCreated (p @ ''.backup''),
         ReadingFile, FoundCalls (py_count c bad_literal)]
    \<and> (py_count c bad_literal = 0 \<longrightarrow>
         fix_cai_mcp_bug env fs =
           (Returned True, fs(p @ ''.backup'' \<mapsto> File c),
            [Title, Rule 40, FoundInstallation (dirname p), TargetFile (basename p),
             CreatingBackup, BackupCreated (p @ ''.backup''),
             ReadingFile, FoundCalls 0, NoFixesNeeded]))"
proof -
  have nb: "p \<noteq> p @ ''.backup''" using find_Some_facts [OF f] by blast
  show ?thesis
    unfolding run_on_file [OF f c] using b nb by (simp add: Let_def)
qed

theorem backup_precedes_count_witness:
  "find_cai_mcp_file demo_env demo_fs_clean = Some demo_path
   \<and> demo_fs_clean demo_path = Some (File demo_clean)
   \<and> demo_fs_clean (demo_path @ ''.backup'') = None
   \<and> py_count demo_clean bad_literal = 0
   \<and> fst (snd (fix_cai_mcp_bug demo_env demo_fs_clean)) (demo_path @ ''.backup'')
       = Some (File demo_clean)
   \<and> fix_cai_mcp_bug demo_env demo_fs_clean =
       (Returned True, demo_fs_clean(demo_path @ ''.backup'' \<mapsto> File demo_clean),
        [Title, Rule 40, FoundInstallation (dirname demo_path), TargetFile (basename demo_path),
         CreatingBackup, BackupCreated (demo_path @ ''.backup''),
         ReadingFile, FoundCalls 0, NoFixesNeeded])"
  using backup_precedes_count [OF demo_find_clean demo_lookup(5) demo_lookup(6)]
  by (simp add: demo_find_clean demo_lookup demo_clean_count)

end
